theory Spec2Isabelle
  imports Complex_Main "HOL-Library.Word"
begin

section \<open>Pixel buffers\<close>

text \<open>
  A capture is a numpy array of shape \<open>(rows, columns, 3)\<close> with \<open>uint8\<close> channels.
  It is modelled as a record of its column count and its rows, each row a list of RGB
  pixels. The column count is kept beside the rows because an array with no rows still
  has a width. The source converts every channel with \<open>astype(float)\<close> or
  \<open>astype(int)\<close> before it subtracts, so channel arithmetic is done on \<open>uint\<close> values
  in \<open>int\<close> and never wraps.
\<close>

type_synonym pixel = "8 word \<times> 8 word \<times> 8 word"

record image =
  ncols :: nat
  pix :: "pixel list list"

definition nrows :: "image \<Rightarrow> nat" where
  "nrows img = length (pix img)"

definition shape :: "image \<Rightarrow> nat \<times> nat \<times> nat" where
  "shape img = (nrows img, ncols img, 3)"

definition wf_image :: "image \<Rightarrow> bool" where
  "wf_image img = list_all (\<lambda>r. length r = ncols img) (pix img)"

definition chans :: "pixel \<Rightarrow> int list" where
  "chans p = (case p of (r, g, b) \<Rightarrow> [uint r, uint g, uint b])"

text \<open>\<open>img[lo:hi, :, :]\<close> for non-negative bounds.\<close>

definition row_slice :: "image \<Rightarrow> nat \<Rightarrow> nat \<Rightarrow> image" where
  "row_slice img lo hi = img\<lparr>pix := take (hi - lo) (drop lo (pix img))\<rparr>"

subsection \<open>Float results\<close>

text \<open>
  \<open>np.mean\<close> returns a float. The sums involved are sums of integers far below
  \<open>2^53\<close>, so they are exact, and a quotient of two such integers compares with the
  constants \<open>5.0\<close> and \<open>0.3\<close> as the exact rational does for every array of fewer than
  \<open>2^50\<close> elements. A float is therefore modelled as an exact rational, with the two
  special values the source can produce: \<open>nan\<close> (the mean of an empty array) and
  \<open>float("inf")\<close>. Every comparison with \<open>nan\<close> is false.
\<close>

datatype fl = Fin rat | PosInf | NaN

fun fl_less :: "fl \<Rightarrow> fl \<Rightarrow> bool" where
  "fl_less (Fin a) (Fin b) = (a < b)"
| "fl_less (Fin a) PosInf = True"
| "fl_less _ _ = False"

definition np_mean :: "int list \<Rightarrow> fl" where
  "np_mean xs = (if xs = [] then NaN else Fin (of_int (sum_list xs) / of_nat (length xs)))"

subsection \<open>Element-wise absolute difference, with numpy broadcasting\<close>

datatype error = ValueError

text \<open>
  Two dimensions broadcast when they are equal or one of them is 1; the result has the
  other size. A dimension of size 1 is read at index 0 throughout.
\<close>

definition bdim :: "nat \<Rightarrow> nat \<Rightarrow> nat option" where
  "bdim m n = (if m = n then Some m else if m = 1 then Some n else if n = 1 then Some m else None)"

definition bidx :: "nat \<Rightarrow> nat \<Rightarrow> nat" where
  "bidx n i = (if n = 1 then 0 else i)"

definition px :: "image \<Rightarrow> nat \<Rightarrow> nat \<Rightarrow> pixel" where
  "px img i j = pix img ! bidx (nrows img) i ! bidx (ncols img) j"

definition pixel_abs_diff :: "pixel \<Rightarrow> pixel \<Rightarrow> int list" where
  "pixel_abs_diff p q = map2 (\<lambda>x y. \<bar>x - y\<bar>) (chans p) (chans q)"

text \<open>\<open>np.abs(a.astype(float) - b.astype(float))\<close>, flattened.\<close>

definition abs_diff :: "image \<Rightarrow> image \<Rightarrow> error + int list" where
  "abs_diff a b =
     (case bdim (nrows a) (nrows b) of
        None \<Rightarrow> Inl ValueError
      | Some H \<Rightarrow>
          (case bdim (ncols a) (ncols b) of
             None \<Rightarrow> Inl ValueError
           | Some W \<Rightarrow>
               Inr (concat (map (\<lambda>i. concat (map (\<lambda>j. pixel_abs_diff (px a i j) (px b i j))
                                                [0..<W])) [0..<H]))))"

definition mean_abs_diff :: "image \<Rightarrow> image \<Rightarrow> error + fl" where
  "mean_abs_diff a b = (case abs_diff a b of Inl e \<Rightarrow> Inl e | Inr ds \<Rightarrow> Inr (np_mean ds))"

section \<open>The frame-difference primitive\<close>

text \<open>
  \<^verbatim>\<open>
  def frames_match(a, b, threshold=5.0):
      if a.shape != b.shape:
          return False
      diff = np.mean(np.abs(a.astype(float) - b.astype(float)))
      return diff < threshold
  \<close>
  After the shape test the subtraction cannot fail; the \<open>Inl\<close> branch below is never
  taken (lemma \<open>mean_abs_diff_same_shape\<close>).
\<close>

definition frames_match :: "image \<Rightarrow> image \<Rightarrow> rat \<Rightarrow> bool" where
  "frames_match a b threshold =
     (if shape a \<noteq> shape b then False
      else (case mean_abs_diff a b of Inl e \<Rightarrow> False | Inr diff \<Rightarrow> fl_less diff (Fin threshold)))"

text \<open>
  The enumerators go on (count a scroll, keep a frame) exactly when \<open>frames_match\<close>
  with the default threshold is false: that is the spec's \<open>changed\<close>.
\<close>

definition changed :: "image \<Rightarrow> image \<Rightarrow> bool" where
  "changed a b = (\<not> frames_match a b 5)"

definition empty_frame :: image where
  "empty_frame = \<lparr>ncols = 0, pix = []\<rparr>"

section \<open>Overlap of two consecutive frames\<close>

text \<open>
  \<^verbatim>\<open>
  def find_overlap(prev_img, curr_img, band_height=40):
      h = prev_img.shape[0]
      band_start = 5
      band = curr_img[band_start:band_start + band_height, :, :].astype(float)
      best_row = -1
      best_diff = float("inf")
      for row in range(0, h - band_height):
          strip = prev_img[row:row + band_height, :, :].astype(float)
          diff = np.mean(np.abs(strip - band))
          if diff < best_diff:
              best_diff = diff
              best_row = row
      if best_diff < 5.0:
          overlap = h - best_row + band_start
          return overlap
      return 0
  \<close>
  The subtraction \<open>strip - band\<close> raises \<open>ValueError\<close> when the shapes do not
  broadcast; the loop state is the pair \<open>(best_row, best_diff)\<close>.
\<close>

definition band_start :: nat where
  "band_start = 5"

definition band_diff :: "nat \<Rightarrow> image \<Rightarrow> image \<Rightarrow> nat \<Rightarrow> error + fl" where
  "band_diff band_height prev_img band row =
     mean_abs_diff (row_slice prev_img row (row + band_height)) band"

fun overlap_scan :: "nat \<Rightarrow> image \<Rightarrow> image \<Rightarrow> nat list \<Rightarrow> int \<times> fl \<Rightarrow> error + (int \<times> fl)" where
  "overlap_scan band_height prev_img band [] best = Inr best"
| "overlap_scan band_height prev_img band (row # rest) best =
     (case band_diff band_height prev_img band row of
        Inl e \<Rightarrow> Inl e
      | Inr diff \<Rightarrow>
          overlap_scan band_height prev_img band rest
            (if fl_less diff (snd best) then (int row, diff) else best))"

definition find_overlap :: "nat \<Rightarrow> image \<Rightarrow> image \<Rightarrow> error + int" where
  "find_overlap band_height prev_img curr_img =
     (let h = nrows prev_img;
          band = row_slice curr_img band_start (band_start + band_height)
      in case overlap_scan band_height prev_img band [0..<h - band_height] (- 1, PosInf) of
           Inl e \<Rightarrow> Inl e
         | Inr (best_row, best_diff) \<Rightarrow>
             if fl_less best_diff (Fin 5) then Inr (int h - best_row + int band_start)
             else Inr 0)"

text \<open>
  What it means for two frames to overlap by \<open>t\<close> rows, in the words of the claims about
  the overlap search: the top \<open>t\<close> rows of the new frame are the bottom \<open>t\<close> rows of the
  previous one. The source has no such function; \<open>find_overlap\<close> is its estimate.
\<close>

definition true_overlap :: "image \<Rightarrow> image \<Rightarrow> nat \<Rightarrow> bool" where
  "true_overlap prev_img curr_img t =
     (t \<le> nrows prev_img \<and> t \<le> nrows curr_img
      \<and> take t (pix curr_img) = drop (nrows prev_img - t) (pix prev_img))"

section \<open>Configuration\<close>

text \<open>
  The constants of \<open>config.py\<close> that the engine reads, as one immutable value handed to
  every operation; \<open>config_py\<close> holds the values of the source. Times are in seconds
  there; the model's clock counts milliseconds.
\<close>

type_synonym rgb = "int \<times> int \<times> int"

record config =
  SCREEN_TIMEOUT :: nat
  RETRY_MAX :: nat
  RETRY_WAIT :: nat
  SCHEDULE_LEFT :: int
  SCHEDULE_TOP :: int
  SCHEDULE_RIGHT :: int
  SCHEDULE_BOTTOM :: int
  SCHEDULE_TOP_BORDER_RGB :: rgb
  SCHEDULE_BOTTOM_BORDER_RGB :: rgb
  SCHEDULE_COLOR_TOLERANCE :: int
  TRAIN_BOX_LEFT :: int
  TRAIN_BOX_TOP :: int
  TRAIN_BOX_WIDTH :: int
  TRAIN_BOX_HEIGHT :: int
  TRAIN_SCROLL_PER_BOX :: int
  TRAIN_FIRST_Y_OFFSET :: int
  TRAIN_BOX_STRIDE :: int

definition config_py :: config where
  "config_py =
     \<lparr>SCREEN_TIMEOUT = 60, RETRY_MAX = 3, RETRY_WAIT = 30,
      SCHEDULE_LEFT = 2053, SCHEDULE_TOP = 235, SCHEDULE_RIGHT = 3675, SCHEDULE_BOTTOM = 902,
      SCHEDULE_TOP_BORDER_RGB = (0x05, 0x97, 0x44),
      SCHEDULE_BOTTOM_BORDER_RGB = (0xc5, 0xe4, 0xe9),
      SCHEDULE_COLOR_TOLERANCE = 20,
      TRAIN_BOX_LEFT = 3218, TRAIN_BOX_TOP = 418, TRAIN_BOX_WIDTH = 450, TRAIN_BOX_HEIGHT = 472,
      TRAIN_SCROLL_PER_BOX = - 310, TRAIN_FIRST_Y_OFFSET = 47, TRAIN_BOX_STRIDE = 94\<rparr>"

section \<open>Colour matching on the central strip of a row\<close>

definition SCHEDULE_MAX_WIDTH :: nat where
  "SCHEDULE_MAX_WIDTH = 1470"

definition SEPARATOR_RGB :: rgb where
  "SEPARATOR_RGB = (0x13, 0x2c, 0x39)"

definition SEPARATOR_TOL :: int where
  "SEPARATOR_TOL = 20"

definition BOX_COLORS :: "config \<Rightarrow> rgb list" where
  "BOX_COLORS cfg = [SCHEDULE_BOTTOM_BORDER_RGB cfg, SCHEDULE_TOP_BORDER_RGB cfg]"

text \<open>\<open>np.all(np.abs(pixel - color) <= tol)\<close> for one pixel.\<close>

definition within_tol :: "rgb \<Rightarrow> int \<Rightarrow> pixel \<Rightarrow> bool" where
  "within_tol color tol p =
     (case p of (r, g, b) \<Rightarrow> case color of (cr, cg, cb) \<Rightarrow>
        \<bar>uint r - cr\<bar> \<le> tol \<and> \<bar>uint g - cg\<bar> \<le> tol \<and> \<bar>uint b - cb\<bar> \<le> tol)"

text \<open>
  \<open>img[row, left:right, :]\<close> with \<open>left = w // 10\<close> and \<open>right = w - w // 10\<close>, and
  \<open>np.mean(match) > 0.3\<close> on the per-pixel matches of that strip.
\<close>

definition central_strip :: "image \<Rightarrow> nat \<Rightarrow> pixel list" where
  "central_strip img row =
     (let w = ncols img; left = w div 10; right = w - w div 10
      in take (right - left) (drop left (pix img ! row)))"

definition strip_matches :: "rgb \<Rightarrow> int \<Rightarrow> pixel list \<Rightarrow> bool" where
  "strip_matches color tol pixels =
     fl_less (Fin (3 / 10)) (np_mean (map (\<lambda>p. if within_tol color tol p then 1 else 0) pixels))"

section \<open>Stitching\<close>

text \<open>
  \<^verbatim>\<open>
  def is_separator_row(img, row):
      w = img.shape[1]
      left = w // 10
      right = w - w // 10
      pixels = img[row, left:right, :].astype(int)
      match = np.all(np.abs(pixels - SEPARATOR_RGB) <= SEPARATOR_TOL, axis=1)
      return np.mean(match) > 0.3

  def find_nearest_separator(img, target_row, search_range=50):
      h = img.shape[0]
      for offset in range(search_range):
          for row in [target_row - offset, target_row + offset]:
              if 0 <= row < h and is_separator_row(img, row):
                  return row
      return target_row
  \<close>
\<close>

definition is_separator_row :: "image \<Rightarrow> nat \<Rightarrow> bool" where
  "is_separator_row img row = strip_matches SEPARATOR_RGB SEPARATOR_TOL (central_strip img row)"

definition find_nearest_separator :: "image \<Rightarrow> int \<Rightarrow> nat \<Rightarrow> int" where
  "find_nearest_separator img target_row search_range =
     (let h = int (nrows img) in
      case List.find (\<lambda>row. 0 \<le> row \<and> row < h \<and> is_separator_row img (nat row))
             (concat (map (\<lambda>offset. [target_row - int offset, target_row + int offset])
                          [0..<search_range])) of
        Some row \<Rightarrow> row
      | None \<Rightarrow> target_row)"

text \<open>
  A slice bound of Python: a negative bound counts from the end, and every bound is
  clipped to the length.
\<close>

definition py_bound :: "nat \<Rightarrow> int \<Rightarrow> nat" where
  "py_bound n k = (if k < 0 then nat (int n + k) else min n (nat k))"

definition rows_from :: "image \<Rightarrow> int \<Rightarrow> image" where
  "rows_from img k = img\<lparr>pix := drop (py_bound (nrows img) k) (pix img)\<rparr>"

definition rows_upto :: "image \<Rightarrow> int \<Rightarrow> image" where
  "rows_upto img k = img\<lparr>pix := take (py_bound (nrows img) k) (pix img)\<rparr>"

text \<open>\<open>np.vstack\<close> wants equal widths, also of an array with no rows.\<close>

definition vstack :: "image \<Rightarrow> image \<Rightarrow> error + image" where
  "vstack a b =
     (if ncols a = ncols b then Inr \<lparr>ncols = ncols a, pix = pix a @ pix b\<rparr> else Inl ValueError)"

text \<open>
  \<^verbatim>\<open>
  def stitch_images(images):
      if not images:
          return None
      if len(images) == 1:
          return Image.fromarray(images[0])
      result = images[0]
      for i in range(1, len(images)):
          overlap = find_overlap(images[i - 1], images[i])
          if overlap > 0:
              sep_start = find_nearest_separator(images[i], overlap)
              new_part = images[i][sep_start:, :, :]
              prev_sep = result.shape[0] - overlap + sep_start
              prev_sep = find_nearest_separator(result, prev_sep)
              result = result[:prev_sep, :, :]
          else:
              new_part = images[i]
          if new_part.shape[0] > 0:
              result = np.vstack([result, new_part])
      return Image.fromarray(result)
  \<close>
  \<open>stitch_step\<close> is one pass of the loop body, for \<open>prev_img = images[i - 1]\<close> and
  \<open>curr_img = images[i]\<close>; \<open>Image.fromarray\<close> keeps the pixels, so the PIL image is the
  same \<open>image\<close> value. \<open>None\<close> is the absent result.
\<close>

definition stitch_step :: "image \<Rightarrow> image \<Rightarrow> image \<Rightarrow> error + image" where
  "stitch_step result prev_img curr_img =
     (case find_overlap 40 prev_img curr_img of
        Inl e \<Rightarrow> Inl e
      | Inr overlap \<Rightarrow>
          (let (result', new_part) =
                 (if overlap > 0 then
                    (let sep_start = find_nearest_separator curr_img overlap 50;
                         new_part = rows_from curr_img sep_start;
                         prev_sep = int (nrows result) - overlap + sep_start;
                         prev_sep' = find_nearest_separator result prev_sep 50
                     in (rows_upto result prev_sep', new_part))
                  else (result, curr_img))
           in if nrows new_part > 0 then vstack result' new_part else Inr result'))"

fun stitch_loop :: "image \<Rightarrow> image \<Rightarrow> image list \<Rightarrow> error + image" where
  "stitch_loop result prev_img [] = Inr result"
| "stitch_loop result prev_img (curr_img # rest) =
     (case stitch_step result prev_img curr_img of
        Inl e \<Rightarrow> Inl e
      | Inr result' \<Rightarrow> stitch_loop result' curr_img rest)"

fun stitch_images :: "image list \<Rightarrow> error + image option" where
  "stitch_images [] = Inr None"
| "stitch_images [img] = Inr (Some img)"
| "stitch_images (img # rest) =
     (case stitch_loop img img rest of Inl e \<Rightarrow> Inl e | Inr result \<Rightarrow> Inr (Some result))"

section \<open>Cropping\<close>

text \<open>
  \<^verbatim>\<open>
  def crop_schedule(img):
      tol = config.SCHEDULE_COLOR_TOLERANCE
      w = img.shape[1]
      left = w // 10
      right = w - w // 10
      strip = img[:, left:right, :].astype(int)
      last_box_row = img.shape[0]
      for row in range(strip.shape[0] - 1, -1, -1):
          for color in BOX_COLORS:
              match = np.all(np.abs(strip[row] - color) <= tol, axis=1)
              if np.mean(match) > 0.3:
                  last_box_row = row + 1
                  break
          if last_box_row < img.shape[0]:
              break
      img = img[:last_box_row, :min(img.shape[1], SCHEDULE_MAX_WIDTH), :]
      return img
  \<close>
  The inner loop sets \<open>last_box_row\<close> exactly when some colour of \<open>BOX_COLORS\<close> matches
  the row (\<open>is_box_row\<close>); \<open>crop_scan\<close> is the outer loop over the rows still to visit.
\<close>

definition is_box_row :: "config \<Rightarrow> image \<Rightarrow> nat \<Rightarrow> bool" where
  "is_box_row cfg img row =
     list_ex (\<lambda>color. strip_matches color (SCHEDULE_COLOR_TOLERANCE cfg) (central_strip img row))
       (BOX_COLORS cfg)"

fun crop_scan :: "config \<Rightarrow> image \<Rightarrow> nat list \<Rightarrow> nat \<Rightarrow> nat" where
  "crop_scan cfg img [] last_box_row = last_box_row"
| "crop_scan cfg img (row # rest) last_box_row =
     (let last_box_row' = (if is_box_row cfg img row then row + 1 else last_box_row)
      in if last_box_row' < nrows img then last_box_row'
         else crop_scan cfg img rest last_box_row')"

definition crop_schedule :: "config \<Rightarrow> image \<Rightarrow> image" where
  "crop_schedule cfg img =
     (let last_box_row = crop_scan cfg img (rev [0..<nrows img]) (nrows img);
          width = min (ncols img) SCHEDULE_MAX_WIDTH
      in \<lparr>ncols = width, pix = map (take width) (take last_box_row (pix img))\<rparr>)"

section \<open>The desktop: capture source, actuator and template matcher\<close>

text \<open>
  The engine talks to three collaborators through \<open>pyautogui\<close>: the actuator (pointer,
  wheel, keys), the capture source (\<open>screenshot\<close>) and the template matcher
  (\<open>locateOnScreen\<close>). They are modelled as one explicit state:
  \<^item> \<open>clock\<close> is virtual time in milliseconds; only \<open>time.sleep\<close> advances it;
  \<^item> \<open>trace\<close> is the list of actuator calls issued so far, oldest first;
  \<^item> \<open>matcher\<close> is an oracle: \<open>matcher k\<close> is the answer to the \<open>k\<close>-th call of
    \<open>locateOnScreen\<close> (a box, \<open>None\<close>, or \<open>ImageNotFoundException\<close> raised). The
    reference image and the confidence only influence that answer, so the model's
    operations do not carry them;
  \<^item> the panel under the pointer scrolls between offset \<open>0\<close> (top) and \<open>scroll_max\<close>, in
    wheel units; \<open>pyautogui.scroll(a)\<close> moves the offset by \<open>- a\<close> and stops at either
    end. \<open>screen p x y\<close> is the pixel shown at \<open>(x, y)\<close> when the offset is \<open>p\<close>;
  \<^item> \<open>saved\<close> are the image files written.
\<close>

datatype action = MoveTo int int | MouseDown | MouseUp | Scroll int | Press string

type_synonym box = "int \<times> int \<times> int \<times> int"

datatype located = Found box | Absent | NotFound

record desktop =
  clock :: nat
  trace :: "action list"
  matcher :: "nat \<Rightarrow> located"
  locate_calls :: nat
  scroll_pos :: int
  scroll_max :: int
  screen :: "int \<Rightarrow> int \<Rightarrow> int \<Rightarrow> pixel"
  saved :: "(string \<times> image) list"

definition sleep :: "nat \<Rightarrow> desktop \<Rightarrow> desktop" where
  "sleep ms w = w\<lparr>clock := clock w + ms\<rparr>"

definition act :: "action \<Rightarrow> desktop \<Rightarrow> desktop" where
  "act a w = w\<lparr>trace := trace w @ [a]\<rparr>"

definition moveTo :: "int \<Rightarrow> int \<Rightarrow> desktop \<Rightarrow> desktop" where
  "moveTo x y w = act (MoveTo x y) w"

definition scroll :: "int \<Rightarrow> desktop \<Rightarrow> desktop" where
  "scroll amount w =
     (act (Scroll amount) w)\<lparr>scroll_pos := max 0 (min (scroll_max w) (scroll_pos w - amount))\<rparr>"

definition locateOnScreen :: "desktop \<Rightarrow> located \<times> desktop" where
  "locateOnScreen w = (matcher w (locate_calls w), w\<lparr>locate_calls := Suc (locate_calls w)\<rparr>)"

text \<open>
  \<open>pyautogui.screenshot(region=(left, top, width, height))\<close> as an array; the corner
  \<open>(left, top)\<close> is \<open>(x0, y0)\<close> below.
\<close>

definition screenshot :: "box \<Rightarrow> desktop \<Rightarrow> image" where
  "screenshot region w =
     (case region of (x0, y0, width, height) \<Rightarrow>
        \<lparr>ncols = nat width,
         pix = map (\<lambda>y. map (\<lambda>x. screen w (scroll_pos w) (x0 + int x) (y0 + int y))
                             [0..<nat width]) [0..<nat height]\<rparr>)"


section \<open>Screen-state detector and click-and-verify\<close>

text \<open>
  \<^verbatim>\<open>
  def wait_for_image(image_path, timeout=60, confidence=0.8, interval=1.0):
      start = time.time()
      attempts = 0
      while time.time() - start < timeout:
          try:
              location = pyautogui.locateOnScreen(image_path, confidence=confidence)
              if location is not None:
                  return location
          except pyautogui.ImageNotFoundException:
              pass
          attempts += 1
          if attempts % 5 == 0:
              ...                      # prints the best confidence seen
          time.sleep(interval)
      ...                              # prints the best confidence seen
      return None
  \<close>
  The loop runs on the clock, so it is a partial function: \<open>None\<close> of the outer
  \<open>option\<close> is a loop that never ends. \<open>attempts\<close> only drives the diagnostics and is
  left out. All durations of the model are in milliseconds.
\<close>

partial_function (option) wait_for_image_loop ::
  "nat \<Rightarrow> nat \<Rightarrow> nat \<Rightarrow> desktop \<Rightarrow> (box option \<times> desktop) option" where
  "wait_for_image_loop start timeout interval w =
     (if clock w - start < timeout then
        (case locateOnScreen w of
           (Found location, w1) \<Rightarrow> Some (Some location, w1)
         | (_, w1) \<Rightarrow> wait_for_image_loop start timeout interval (sleep interval w1))
      else Some (None, w))"

definition wait_for_image :: "nat \<Rightarrow> nat \<Rightarrow> desktop \<Rightarrow> (box option \<times> desktop) option" where
  "wait_for_image timeout interval w = wait_for_image_loop (clock w) timeout interval w"

text \<open>
  \<^verbatim>\<open>
  def _screen_changed(image_path, confidence, wait_time, check_interval=2.0):
      start = time.time()
      while time.time() - start < wait_time:
          time.sleep(check_interval)
          try:
              loc = pyautogui.locateOnScreen(image_path, confidence=confidence)
          except pyautogui.ImageNotFoundException:
              loc = None
          if loc is None:
              return True
      return False
  \<close>
\<close>

partial_function (option) screen_changed_loop ::
  "nat \<Rightarrow> nat \<Rightarrow> nat \<Rightarrow> desktop \<Rightarrow> (bool \<times> desktop) option" where
  "screen_changed_loop start wait_time check_interval w =
     (if clock w - start < wait_time then
        (case locateOnScreen (sleep check_interval w) of
           (Found loc, w1) \<Rightarrow> screen_changed_loop start wait_time check_interval w1
         | (_, w1) \<Rightarrow> Some (True, w1))
      else Some (False, w))"

definition screen_changed :: "nat \<Rightarrow> nat \<Rightarrow> desktop \<Rightarrow> (bool \<times> desktop) option" where
  "screen_changed wait_time check_interval w =
     screen_changed_loop (clock w) wait_time check_interval w"

text \<open>
  \<^verbatim>\<open>
  def wait_and_click(image_path, timeout=60, confidence=0.8, interval=1.0,
                     click_duration=0.2, verify=True):
      location = wait_for_image(image_path, timeout=timeout, confidence=confidence,
                                interval=interval)
      if location is None:
          return False
      for attempt in range(1, config.RETRY_MAX + 1):
          center = pyautogui.center(location)
          pyautogui.moveTo(center)
          time.sleep(0.5)
          pyautogui.mouseDown()
          time.sleep(click_duration)
          pyautogui.mouseUp()
          if not verify:
              return True
          if _screen_changed(image_path, confidence, wait_time=config.RETRY_WAIT):
              return True
          if attempt < config.RETRY_MAX:
              try:
                  new_loc = pyautogui.locateOnScreen(image_path, confidence=confidence)
                  if new_loc is not None:
                      location = new_loc
              except pyautogui.ImageNotFoundException:
                  return True
          else:
              return False
      return False
  \<close>
  \<open>click_attempts\<close> is the \<open>for\<close> loop over the attempts still to make.
\<close>

definition center :: "box \<Rightarrow> int \<times> int" where
  "center location =
     (case location of (x0, y0, width, height) \<Rightarrow> (x0 + width div 2, y0 + height div 2))"

definition click_at :: "int \<times> int \<Rightarrow> nat \<Rightarrow> desktop \<Rightarrow> desktop" where
  "click_at p click_duration w =
     act MouseUp (sleep click_duration (act MouseDown (sleep 500 (moveTo (fst p) (snd p) w))))"

fun click_attempts ::
  "config \<Rightarrow> nat \<Rightarrow> bool \<Rightarrow> nat list \<Rightarrow> box \<Rightarrow> desktop \<Rightarrow> (bool \<times> desktop) option" where
  "click_attempts cfg click_duration verify [] location w = Some (False, w)"
| "click_attempts cfg click_duration verify (attempt # rest) location w =
     (let w1 = click_at (center location) click_duration w in
      if \<not> verify then Some (True, w1)
      else
        (case screen_changed (RETRY_WAIT cfg * 1000) 2000 w1 of
           None \<Rightarrow> None
         | Some (True, w2) \<Rightarrow> Some (True, w2)
         | Some (False, w2) \<Rightarrow>
             if attempt < RETRY_MAX cfg then
               (case locateOnScreen w2 of
                  (Found new_loc, w3) \<Rightarrow> click_attempts cfg click_duration verify rest new_loc w3
                | (Absent, w3) \<Rightarrow> click_attempts cfg click_duration verify rest location w3
                | (NotFound, w3) \<Rightarrow> Some (True, w3))
             else Some (False, w2)))"

definition wait_and_click ::
  "config \<Rightarrow> nat \<Rightarrow> nat \<Rightarrow> nat \<Rightarrow> bool \<Rightarrow> desktop \<Rightarrow> (bool \<times> desktop) option" where
  "wait_and_click cfg timeout interval click_duration verify w =
     (case wait_for_image timeout interval w of
        None \<Rightarrow> None
      | Some (None, w1) \<Rightarrow> Some (False, w1)
      | Some (Some location, w1) \<Rightarrow>
          click_attempts cfg click_duration verify [1..<RETRY_MAX cfg + 1] location w1)"

section \<open>Scroll-synchronized enumeration of the train list\<close>














section \<open>Capturing the schedule\<close>

text \<open>
  \<^verbatim>\<open>
  def capture_schedule(output_dir):
      pyautogui.press("escape")
      time.sleep(4.0)
      if not wait_and_click(config.REF_SCHEDULE, timeout=config.SCREEN_TIMEOUT,
                            confidence=config.CONFIDENCE):
          return None
      time.sleep(3.0)
      frames = []
      max_frames = 20
      for frame_idx in range(max_frames):
          img = capture_schedule_region()
          if frames and frames_match(frames[-1], img):
              break
          frames.append(img)
          scroll_schedule_down()
      stitched = stitch_images(frames)
      if stitched is None:
          return None
      stitched_arr = crop_schedule(np.array(stitched))
      stitched = Image.fromarray(stitched_arr)
      output_path = os.path.join(output_dir, "2_schedule.png")
      stitched.save(output_path)
      pyautogui.press("escape")
      time.sleep(2.0)
      return output_path
  \<close>
  \<open>capture_frames\<close> is the frame loop; \<open>save_schedule\<close> is everything from
  \<open>stitch_images(frames)\<close> on. A \<open>ValueError\<close> of the stitcher is not caught.
\<close>

definition schedule_region :: "config \<Rightarrow> box" where
  "schedule_region cfg =
     (SCHEDULE_LEFT cfg, SCHEDULE_TOP cfg,
      SCHEDULE_RIGHT cfg - SCHEDULE_LEFT cfg, SCHEDULE_BOTTOM cfg - SCHEDULE_TOP cfg)"

definition scroll_schedule_down :: "config \<Rightarrow> int \<Rightarrow> desktop \<Rightarrow> desktop" where
  "scroll_schedule_down cfg amount w =
     sleep 2000 (scroll amount (sleep 300
       (moveTo ((SCHEDULE_LEFT cfg + SCHEDULE_RIGHT cfg) div 2)
               ((SCHEDULE_TOP cfg + SCHEDULE_BOTTOM cfg) div 2) w)))"

fun capture_frames :: "config \<Rightarrow> nat \<Rightarrow> image list \<Rightarrow> desktop \<Rightarrow> image list \<times> desktop" where
  "capture_frames cfg 0 frames w = (frames, w)"
| "capture_frames cfg (Suc n) frames w =
     (let img = screenshot (schedule_region cfg) w
      in if frames \<noteq> [] \<and> frames_match (last frames) img 5 then (frames, w)
         else capture_frames cfg n (frames @ [img]) (scroll_schedule_down cfg (- 2000) w))"

definition path_join :: "string \<Rightarrow> string \<Rightarrow> string" where
  "path_join dir name = dir @ ''/'' @ name"

definition save_schedule ::
  "config \<Rightarrow> string \<Rightarrow> image list \<Rightarrow> desktop \<Rightarrow> (error + string option) \<times> desktop" where
  "save_schedule cfg output_dir frames w =
     (case stitch_images frames of
        Inl e \<Rightarrow> (Inl e, w)
      | Inr None \<Rightarrow> (Inr None, w)
      | Inr (Some stitched) \<Rightarrow>
          (let stitched_arr = crop_schedule cfg stitched;
               output_path = path_join output_dir ''2_schedule.png'';
               w1 = w\<lparr>saved := saved w @ [(output_path, stitched_arr)]\<rparr>;
               w2 = sleep 2000 (act (Press ''escape'') w1)
           in (Inr (Some output_path), w2)))"

definition capture_schedule ::
  "config \<Rightarrow> string \<Rightarrow> desktop \<Rightarrow> ((error + string option) \<times> desktop) option" where
  "capture_schedule cfg output_dir w =
     (let w1 = sleep 4000 (act (Press ''escape'') w) in
      case wait_and_click cfg (SCREEN_TIMEOUT cfg * 1000) 1000 200 True w1 of
        None \<Rightarrow> None
      | Some (False, w2) \<Rightarrow> Some (Inr None, w2)
      | Some (True, w2) \<Rightarrow>
          (let (frames, w3) = capture_frames cfg 20 [] (sleep 3000 w2)
           in Some (save_schedule cfg output_dir frames w3)))"

section \<open>Desktops with the same panel\<close>


section \<open>Concrete inputs\<close>

text \<open>Small frames and desktops on which the theorems below are instantiated.\<close>

definition dark_frame :: image where
  "dark_frame = \<lparr>ncols = 1, pix = [[(0, 0, 0)]]\<rparr>"

definition grey_frame :: image where
  "grey_frame = \<lparr>ncols = 1, pix = [[(10, 10, 10)]]\<rparr>"

definition dark_column :: "nat \<Rightarrow> image" where
  "dark_column n = \<lparr>ncols = 1, pix = replicate n [(0, 0, 0)]\<rparr>"

definition grey_column :: "nat \<Rightarrow> image" where
  "grey_column n = \<lparr>ncols = 1, pix = replicate n [(10, 10, 10)]\<rparr>"

text \<open>
  Three rows of one pixel: a row in the light box colour \<open>#c5e4e9\<close>, a black row, and
  a box-coloured row again at the very bottom.
\<close>

definition box_gap_box :: image where
  "box_gap_box = \<lparr>ncols = 1, pix = [[(0xc5, 0xe4, 0xe9)], [(0, 0, 0)], [(0xc5, 0xe4, 0xe9)]]\<rparr>"

text \<open>
  A desktop on which nothing has happened yet: the matcher never finds the reference,
  the panel cannot scroll and the screen is black.
\<close>

definition idle_desktop :: desktop where
  "idle_desktop =
     \<lparr>clock = 0, trace = [], matcher = (\<lambda>k. NotFound), locate_calls = 0,
      scroll_pos = 0, scroll_max = 0, screen = (\<lambda>p x y. (0, 0, 0)), saved = []\<rparr>"

text \<open>
  A panel of 90 rows, one pixel wide, seen through two windows of 50 rows: the upper
  window shows rows 0 to 49, the lower one rows 40 to 89, so the two frames overlap by
  exactly 10 rows. Row 49 is a marker line; the rows above it and the rows below it
  differ by one grey level.
\<close>

definition panel :: "pixel list list" where
  "panel = replicate 49 [(0, 0, 0)] @ [[(3, 3, 3)]] @ replicate 40 [(1, 1, 1)]"

definition upper_window :: image where
  "upper_window = \<lparr>ncols = 1, pix = take 50 panel\<rparr>"

definition lower_window :: image where
  "lower_window = \<lparr>ncols = 1, pix = drop 40 panel\<rparr>"











section \<open>Properties of the frame difference and of the overlap search\<close>

lemma bdim_same: "bdim n n = Some n"
  by (simp add: bdim_def)

lemma bdim_commute: "bdim m n = bdim n m"
  by (auto simp: bdim_def)

lemma pixel_abs_diff_commute: "pixel_abs_diff p q = pixel_abs_diff q p"
  by (cases p; cases q) (simp add: pixel_abs_diff_def chans_def abs_minus_commute)

lemma abs_diff_commute: "abs_diff a b = abs_diff b a"
proof -
  have p: "pixel_abs_diff (px a i j) (px b i j) = pixel_abs_diff (px b i j) (px a i j)" for i j
    by (rule pixel_abs_diff_commute)
  show ?thesis
    unfolding abs_diff_def bdim_commute [of "nrows a" "nrows b"]
      bdim_commute [of "ncols a" "ncols b"] p ..
qed

lemma mean_abs_diff_commute: "mean_abs_diff a b = mean_abs_diff b a"
  by (simp add: mean_abs_diff_def abs_diff_commute [of a])

lemma frames_match_commute: "frames_match a b t = frames_match b a t"
  by (auto simp: frames_match_def mean_abs_diff_commute [of a])

lemma abs_diff_same_shape:
  "shape a = shape b \<Longrightarrow>
   abs_diff a b = Inr (concat (map (\<lambda>i. concat (map (\<lambda>j. pixel_abs_diff (px a i j) (px b i j))
                                                [0..<ncols a])) [0..<nrows a]))"
  by (simp add: abs_diff_def shape_def bdim_same)

lemma pixel_abs_diff_self: "pixel_abs_diff p p = [0, 0, 0]"
  by (cases p) (simp add: pixel_abs_diff_def chans_def)

lemma sum_list_concat_zero:
  "(\<And>x. x \<in> set xss \<Longrightarrow> sum_list x = (0::int)) \<Longrightarrow> sum_list (concat xss) = 0"
  by (induction xss) auto

lemma length_concat_const:
  "(\<And>x. x \<in> set xss \<Longrightarrow> length x = k) \<Longrightarrow> length (concat xss) = length xss * k"
  by (induction xss) auto

lemma abs_diff_self:
  "\<exists>ds. abs_diff a a = Inr ds \<and> sum_list ds = 0 \<and> length ds = nrows a * (ncols a * 3)"
proof -
  let ?row = "\<lambda>i. concat (map (\<lambda>j. pixel_abs_diff (px a i j) (px a i j)) [0..<ncols a])"
  have r0: "sum_list (?row i) = 0" for i
    by (rule sum_list_concat_zero) (auto simp: pixel_abs_diff_self)
  have rl: "length (?row i) = ncols a * 3" for i
    by (simp add: pixel_abs_diff_self length_concat o_def sum_list_triv)
  have s: "sum_list (concat (map ?row [0..<nrows a])) = 0"
    by (rule sum_list_concat_zero) (auto simp: r0)
  have l: "length (concat (map ?row [0..<nrows a])) = nrows a * (ncols a * 3)"
    by (simp add: pixel_abs_diff_self length_concat o_def sum_list_triv)
  show ?thesis using s l by (simp add: abs_diff_same_shape)
qed

lemma frames_match_self:
  assumes "0 < nrows a" "0 < ncols a" "0 < t"
  shows "frames_match a a t"
proof -
  obtain ds where ds: "abs_diff a a = Inr ds" "sum_list ds = 0" "length ds = nrows a * (ncols a * 3)"
    using abs_diff_self by blast
  from ds(3) assms have "ds \<noteq> []" by auto
  with ds assms(3) show ?thesis
    by (simp add: frames_match_def mean_abs_diff_def np_mean_def)
qed

lemma frames_match_empty: "nrows a = 0 \<or> ncols a = 0 \<Longrightarrow> \<not> frames_match a b t"
proof
  assume e: "nrows a = 0 \<or> ncols a = 0" and m: "frames_match a b t"
  from m have sh: "shape a = shape b" by (auto simp: frames_match_def split: if_splits)
  have "concat (map (\<lambda>i. concat (map (\<lambda>j. pixel_abs_diff (px a i j) (px b i j))
                                                [0..<ncols a])) [0..<nrows a]) = []"
    using e by auto
  with sh m show False
    by (simp add: frames_match_def mean_abs_diff_def abs_diff_same_shape np_mean_def)
qed

lemma overlap_scan_append:
  "overlap_scan bh prev band (xs @ [x]) best =
     (case overlap_scan bh prev band xs best of
        Inl e \<Rightarrow> Inl e
      | Inr b \<Rightarrow>
          (case band_diff bh prev band x of
             Inl e \<Rightarrow> Inl e
           | Inr diff \<Rightarrow> Inr (if fl_less diff (snd b) then (int x, diff) else b)))"
  by (induction xs arbitrary: best) (auto split: sum.splits)

definition scan_inv :: "(nat \<Rightarrow> fl) \<Rightarrow> nat \<Rightarrow> int \<times> fl \<Rightarrow> bool" where
  "scan_inv d k best =
     ((fst best = - 1 \<and> snd best = PosInf \<and> (\<forall>i<k. \<not> fl_less (d i) PosInf))
      \<or> (\<exists>j<k. fst best = int j \<and> snd best = d j \<and> fl_less (d j) PosInf
            \<and> (\<forall>i<k. \<not> fl_less (d i) (d j)) \<and> (\<forall>i<j. d i \<noteq> d j)))"

lemma fl_less_PosInf: "fl_less x PosInf = (\<exists>r. x = Fin r)"
  by (cases x) auto

lemma fl_less_Fin: "fl_less x (Fin t) = (\<exists>r. x = Fin r \<and> r < t)"
  by (cases x) auto

lemma fl_less_trans_neg:
  "fl_less x y \<Longrightarrow> \<not> fl_less z y \<Longrightarrow> \<not> fl_less z x"
  by (cases x; cases y; cases z) auto

lemma fl_less_irrefl: "\<not> fl_less x x"
  by (cases x) auto

lemma scan_inv_step:
  assumes "scan_inv d k best"
  shows "scan_inv d (Suc k) (if fl_less (d k) (snd best) then (int k, d k) else best)"
proof (cases "fl_less (d k) (snd best)")
  case True
  then have fin: "fl_less (d k) PosInf"
    by (cases "d k"; cases "snd best") auto
  have a: "\<not> fl_less (d i) (d k)" if "i < Suc k" for i
  proof (cases "i = k")
    case True then show ?thesis by (simp add: fl_less_irrefl)
  next
    case False
    with that have ik: "i < k" by simp
    from assms show ?thesis unfolding scan_inv_def
    proof
      assume "fst best = - 1 \<and> snd best = PosInf \<and> (\<forall>i<k. \<not> fl_less (d i) PosInf)"
      with ik have "\<not> fl_less (d i) PosInf" by simp
      then show ?thesis by (cases "d i"; cases "d k") auto
    next
      assume "\<exists>j<k. fst best = int j \<and> snd best = d j \<and> fl_less (d j) PosInf
            \<and> (\<forall>i<k. \<not> fl_less (d i) (d j)) \<and> (\<forall>i<j. d i \<noteq> d j)"
      then obtain j where j: "snd best = d j" "\<forall>i<k. \<not> fl_less (d i) (d j)" by blast
      with ik have "\<not> fl_less (d i) (d j)" by simp
      with True j(1) show ?thesis by (auto dest: fl_less_trans_neg)
    qed
  qed
  have b: "d i \<noteq> d k" if "i < k" for i
  proof
    assume e: "d i = d k"
    from assms show False unfolding scan_inv_def
    proof
      assume "fst best = - 1 \<and> snd best = PosInf \<and> (\<forall>i<k. \<not> fl_less (d i) PosInf)"
      with that e fin show False by auto
    next
      assume "\<exists>j<k. fst best = int j \<and> snd best = d j \<and> fl_less (d j) PosInf
            \<and> (\<forall>i<k. \<not> fl_less (d i) (d j)) \<and> (\<forall>i<j. d i \<noteq> d j)"
      then obtain j where j: "snd best = d j" "\<forall>i<k. \<not> fl_less (d i) (d j)" by blast
      with that e True show False by auto
    qed
  qed
  from True fin a b show ?thesis
    unfolding scan_inv_def by (intro disjI2) auto
next
  case False
  from assms show ?thesis unfolding scan_inv_def
  proof
    assume h: "fst best = - 1 \<and> snd best = PosInf \<and> (\<forall>i<k. \<not> fl_less (d i) PosInf)"
    with False have "\<forall>i<Suc k. \<not> fl_less (d i) PosInf" by (auto simp: less_Suc_eq)
    with h False show "(fst (if fl_less (d k) (snd best) then (int k, d k) else best) = - 1 \<and>
     snd (if fl_less (d k) (snd best) then (int k, d k) else best) = PosInf \<and>
     (\<forall>i<Suc k. \<not> fl_less (d i) PosInf)) \<or>
    (\<exists>j<Suc k.
        fst (if fl_less (d k) (snd best) then (int k, d k) else best) = int j \<and>
        snd (if fl_less (d k) (snd best) then (int k, d k) else best) = d j \<and>
        fl_less (d j) PosInf \<and> (\<forall>i<Suc k. \<not> fl_less (d i) (d j)) \<and> (\<forall>i<j. d i \<noteq> d j))"
      by simp
  next
    assume "\<exists>j<k. fst best = int j \<and> snd best = d j \<and> fl_less (d j) PosInf
            \<and> (\<forall>i<k. \<not> fl_less (d i) (d j)) \<and> (\<forall>i<j. d i \<noteq> d j)"
    then obtain j where j: "j < k" "fst best = int j" "snd best = d j" "fl_less (d j) PosInf"
      "\<forall>i<k. \<not> fl_less (d i) (d j)" "\<forall>i<j. d i \<noteq> d j" by blast
    from j(5) False j(3) have "\<forall>i<Suc k. \<not> fl_less (d i) (d j)" by (auto simp: less_Suc_eq)
    with j False show "(fst (if fl_less (d k) (snd best) then (int k, d k) else best) = - 1 \<and>
     snd (if fl_less (d k) (snd best) then (int k, d k) else best) = PosInf \<and>
     (\<forall>i<Suc k. \<not> fl_less (d i) PosInf)) \<or>
    (\<exists>j<Suc k.
        fst (if fl_less (d k) (snd best) then (int k, d k) else best) = int j \<and>
        snd (if fl_less (d k) (snd best) then (int k, d k) else best) = d j \<and>
        fl_less (d j) PosInf \<and> (\<forall>i<Suc k. \<not> fl_less (d i) (d j)) \<and> (\<forall>i<j. d i \<noteq> d j))"
      by (intro disjI2) (auto simp: less_Suc_eq)
  qed
qed

lemma overlap_scan_inv:
  assumes "\<forall>row<n. band_diff bh prev band row = Inr (d row)"
  shows "k \<le> n \<Longrightarrow> \<exists>best. overlap_scan bh prev band [0..<k] (- 1, PosInf) = Inr best \<and> scan_inv d k best"
proof (induction k)
  case 0
  show ?case by (simp add: scan_inv_def)
next
  case (Suc k)
  then obtain best where b: "overlap_scan bh prev band [0..<k] (- 1, PosInf) = Inr best"
    "scan_inv d k best" by auto
  from Suc.prems assms have dk: "band_diff bh prev band k = Inr (d k)" by simp
  from b(2) have "scan_inv d (Suc k) (if fl_less (d k) (snd best) then (int k, d k) else best)"
    by (rule scan_inv_step)
  with b(1) dk show ?case
    by (simp add: overlap_scan_append)
qed

text \<open>Without any assumption: where the scan ends, and on what.\<close>

lemma overlap_scan_range:
  "overlap_scan bh prev band rows best = Inr (r, bd) \<Longrightarrow>
   (r, bd) = best \<or> (r \<in> int ` set rows \<and> fl_less bd PosInf)"
proof (induction rows arbitrary: best)
  case Nil
  then show ?case by simp
next
  case (Cons row rows)
  then obtain diff where d: "band_diff bh prev band row = Inr diff"
    by (auto split: sum.splits)
  let ?b = "if fl_less diff (snd best) then (int row, diff) else best"
  from Cons.prems d have "overlap_scan bh prev band rows ?b = Inr (r, bd)" by simp
  from Cons.IH [OF this] show ?case
    by (cases "diff") (auto split: if_splits)
qed


text \<open>
  C8 (amended). For every frame \<open>a\<close> with at least one pixel, \<open>changed a a\<close> is false;
  for same-shaped frames whose mean absolute difference is at or above the threshold
  \<open>5.0\<close>, \<open>changed\<close> is true; and \<open>changed\<close> is symmetric for all frames.
\<close>

theorem changed_spec:
  "(0 < nrows a \<and> 0 < ncols a \<longrightarrow> \<not> changed a a)
   \<and> (shape a = shape b \<and> mean_abs_diff a b = Inr (Fin m) \<and> 5 \<le> m \<longrightarrow> changed a b)
   \<and> changed a b = changed b a"
proof (intro conjI impI)
  assume "0 < nrows a \<and> 0 < ncols a"
  then show "\<not> changed a a"
    by (simp add: changed_def frames_match_self)
next
  assume "shape a = shape b \<and> mean_abs_diff a b = Inr (Fin m) \<and> 5 \<le> m"
  then show "changed a b"
    by (simp add: changed_def frames_match_def)
next
  show "changed a b = changed b a"
    by (simp add: changed_def frames_match_commute [of a b])
qed

lemma mean_abs_diff_dark_grey: "mean_abs_diff dark_frame grey_frame = Inr (Fin 10)"
  by (simp add: mean_abs_diff_def abs_diff_def dark_frame_def grey_frame_def nrows_def bdim_def
      px_def bidx_def pixel_abs_diff_def chans_def np_mean_def)

theorem changed_spec_witness:
  "(0 < nrows dark_frame \<and> 0 < ncols dark_frame) \<and> \<not> changed dark_frame dark_frame
   \<and> shape dark_frame = shape grey_frame
   \<and> mean_abs_diff dark_frame grey_frame = Inr (Fin 10) \<and> (5::rat) \<le> 10
   \<and> changed dark_frame grey_frame"
proof -
  have s: "shape dark_frame = shape grey_frame"
    by (simp add: shape_def nrows_def dark_frame_def grey_frame_def)
  have n: "0 < nrows dark_frame \<and> 0 < ncols dark_frame"
    by (simp add: nrows_def dark_frame_def)
  from changed_spec [of dark_frame grey_frame 10] s n mean_abs_diff_dark_grey
  show ?thesis by simp
qed

text \<open>
  The claim as stated fails on the frame with no pixels: the mean of an empty array is
  \<open>nan\<close>, \<open>nan < 5.0\<close> is false, so two identical empty frames do not match.
\<close>

theorem changed_identical_counterexample:
  "shape empty_frame = shape empty_frame \<and> changed empty_frame empty_frame"
  by (simp add: changed_def frames_match_def mean_abs_diff_def abs_diff_def bdim_def
      empty_frame_def nrows_def np_mean_def)

text \<open>
  C9 (amended). Whenever \<open>find_overlap\<close> returns a nonzero value, that value is at
  least \<open>band_start + band_height + 1\<close> (46 with the defaults) and at most
  \<open>height(prev) + band_start\<close>; so an overlap of 1 to \<open>band_start + band_height\<close> rows
  is never reported: for a frame pair whose true overlap \<open>t\<close> is that small the result
  is not \<open>t\<close>, but either 0 or a value of at least the bound.
\<close>

theorem find_overlap_bounds:
  "find_overlap band_height prev_img curr_img = Inr v \<Longrightarrow>
     (v \<noteq> 0 \<longrightarrow> int band_start + int band_height + 1 \<le> v \<and> v \<le> int (nrows prev_img) + int band_start)
     \<and> (v < int band_start + int band_height + 1 \<longrightarrow> v = 0)
     \<and> (band_height = 40 \<and> v \<noteq> 0 \<longrightarrow> 46 \<le> v)
     \<and> (true_overlap prev_img curr_img t \<and> 0 < t
          \<and> int t < int band_start + int band_height + 1 \<longrightarrow> v \<noteq> int t)"
proof -
  assume r: "find_overlap band_height prev_img curr_img = Inr v"
  let ?h = "nrows prev_img"
  let ?band = "row_slice curr_img band_start (band_start + band_height)"
  from r obtain best_row best_diff where
    s: "overlap_scan band_height prev_img ?band [0..<?h - band_height] (- 1, PosInf)
          = Inr (best_row, best_diff)"
    by (auto simp: find_overlap_def Let_def split: sum.splits)
  have b: "int band_start + int band_height + 1 \<le> v \<and> v \<le> int ?h + int band_start" if "v \<noteq> 0"
  proof -
    from r s that have lt: "fl_less best_diff (Fin 5)"
      and v: "v = int ?h - best_row + int band_start"
      by (auto simp: find_overlap_def Let_def split: if_splits)
    from lt have "best_diff \<noteq> PosInf" by auto
    with overlap_scan_range [OF s] have "best_row \<in> int ` set [0..<?h - band_height]"
      by auto
    then obtain row where "best_row = int row" "row < ?h - band_height" by auto
    with v show ?thesis by auto
  qed
  show ?thesis
  proof (cases "v = 0")
    case True
    then show ?thesis by simp
  next
    case False
    with b [OF False] show ?thesis by (auto simp: band_start_def)
  qed
qed

lemma true_overlap_dark: "true_overlap (dark_column 41) (dark_column 45) 10"
  by (simp add: true_overlap_def nrows_def dark_column_def)

lemma find_overlap_dark: "find_overlap 40 (dark_column 41) (dark_column 45) = Inr 46"
  unfolding dark_column_def by code_simp

theorem find_overlap_bounds_witness:
  "find_overlap 40 (dark_column 41) (dark_column 45) = Inr 46
   \<and> int band_start + int 40 + 1 \<le> (46::int) \<and> (46::int) \<le> int (nrows (dark_column 41)) + int band_start
   \<and> true_overlap (dark_column 41) (dark_column 45) 10 \<and> (46::int) \<noteq> int 10"
  using find_overlap_bounds [OF find_overlap_dark, of 10] find_overlap_dark true_overlap_dark
  by simp

text \<open>
  The claim as stated goes on: a pair whose true overlap is below the bound always takes
  the zero-overlap path. It does not. The two windows overlap by 10 rows and by no other
  positive number of rows, yet the band of the lower window is within the threshold of
  the strip at row 0 of the upper one (mean difference 0.95), so the search reports
  \<open>50 - 0 + 5 = 55\<close> rows; the stitcher then cuts the new frame at row 55, beyond its
  end, and returns the upper window alone.
\<close>

lemma true_overlap_windows_10: "true_overlap upper_window lower_window 10"
  unfolding true_overlap_def upper_window_def lower_window_def panel_def nrows_def
  by code_simp

lemma find_overlap_windows: "find_overlap 40 upper_window lower_window = Inr 55"
  unfolding upper_window_def lower_window_def panel_def
  by code_simp

lemma stitch_images_windows: "stitch_images [upper_window, lower_window] = Inr (Some upper_window)"
  unfolding upper_window_def lower_window_def panel_def
  by code_simp

lemma panel_nth:
  "i < 90 \<Longrightarrow>
   panel ! i = (if i < 49 then [(0, 0, 0)] else if i = 49 then [(3, 3, 3)] else [(1, 1, 1)])"
  by (auto simp: panel_def nth_append nth_Cons')

lemma true_overlap_windows_iff:
  "true_overlap upper_window lower_window t \<longleftrightarrow> t = 0 \<or> t = 10"
proof
  assume a: "true_overlap upper_window lower_window t"
  show "t = 0 \<or> t = 10"
  proof (rule ccontr)
    assume n: "\<not> (t = 0 \<or> t = 10)"
    have len: "length panel = 90" by (simp add: panel_def)
    from a have le: "t \<le> 50"
      and eq: "take t (drop 40 panel) = drop (50 - t) (take 50 panel)"
      by (simp_all add: true_overlap_def upper_window_def lower_window_def nrows_def len)
    from eq have "take t (drop 40 panel) ! (t - 1) = drop (50 - t) (take 50 panel) ! (t - 1)"
      by simp
    with n le have "panel ! (40 + (t - 1)) = panel ! 49"
      by (simp add: len)
    with n le show False
      by (simp add: panel_nth split: if_splits)
  qed
next
  assume "t = 0 \<or> t = 10"
  then show "true_overlap upper_window lower_window t"
    using true_overlap_windows_10 by (auto simp: true_overlap_def nrows_def)
qed

theorem small_overlap_counterexample:
  "true_overlap upper_window lower_window 10
   \<and> int 10 < int band_start + int 40 + 1
   \<and> find_overlap 40 upper_window lower_window = Inr 55
   \<and> stitch_images [upper_window, lower_window] = Inr (Some upper_window)"
  using true_overlap_windows_10 find_overlap_windows stitch_images_windows
  by (simp add: band_start_def)


section \<open>The overlap search returns what the specification says\<close>

lemma fl_less_min_below:
  "fl_less x (Fin t) \<Longrightarrow> \<not> fl_less x y \<Longrightarrow> fl_less y PosInf \<Longrightarrow> fl_less y (Fin t)"
  by (cases x; cases y) auto

lemma stitch_step_no_overlap:
  assumes "find_overlap 40 prev_img curr_img = Inr 0"
    and "ncols result = ncols curr_img \<or> nrows curr_img = 0"
  shows "stitch_step result prev_img curr_img = Inr (result\<lparr>pix := pix result @ pix curr_img\<rparr>)"
  using assms by (auto simp: stitch_step_def vstack_def nrows_def)

text \<open>
  C4. Let \<open>d row\<close> be the mean absolute difference between the band of the new frame
  and the strip of the previous frame at \<open>row\<close>, for every position \<open>row\<close> of the
  search. If some position is below the acceptance threshold \<open>5.0\<close>, the result is
  \<open>height(prev) - best_row + band_start\<close>, where \<open>best_row\<close> is the first position of
  minimal difference; otherwise the result is 0. On a result of 0 the stitcher appends
  the whole new frame to what it has, untrimmed.
\<close>

theorem find_overlap_spec:
  assumes "\<forall>row < nrows prev_img - band_height.
             band_diff band_height prev_img
               (row_slice curr_img band_start (band_start + band_height)) row = Inr (d row)"
  shows "((\<exists>row < nrows prev_img - band_height. fl_less (d row) (Fin 5)) \<longrightarrow>
            (\<exists>best_row < nrows prev_img - band_height.
               find_overlap band_height prev_img curr_img
                 = Inr (int (nrows prev_img) - int best_row + int band_start)
               \<and> fl_less (d best_row) (Fin 5)
               \<and> (\<forall>row < nrows prev_img - band_height. \<not> fl_less (d row) (d best_row))
               \<and> (\<forall>row < best_row. d row \<noteq> d best_row)))
         \<and> (\<not> (\<exists>row < nrows prev_img - band_height. fl_less (d row) (Fin 5)) \<longrightarrow>
              find_overlap band_height prev_img curr_img = Inr 0)
         \<and> (find_overlap 40 prev_img curr_img = Inr 0
              \<and> (ncols result = ncols curr_img \<or> nrows curr_img = 0) \<longrightarrow>
              stitch_step result prev_img curr_img
                = Inr (result\<lparr>pix := pix result @ pix curr_img\<rparr>))
         \<and> (find_overlap 40 prev_img curr_img = Inr 0 \<and> ncols prev_img = ncols curr_img \<longrightarrow>
              stitch_images [prev_img, curr_img]
                = Inr (Some (prev_img\<lparr>pix := pix prev_img @ pix curr_img\<rparr>)))"
proof -
  let ?n = "nrows prev_img - band_height"
  let ?band = "row_slice curr_img band_start (band_start + band_height)"
  from overlap_scan_inv [OF assms, of ?n] obtain best where
    s: "overlap_scan band_height prev_img ?band [0..<?n] (- 1, PosInf) = Inr best"
    and inv: "scan_inv d ?n best" by auto
  have fo: "find_overlap band_height prev_img curr_img =
      (if fl_less (snd best) (Fin 5) then Inr (int (nrows prev_img) - fst best + int band_start)
       else Inr 0)"
    using s by (cases best) (simp add: find_overlap_def Let_def)
  have found: "\<exists>best_row < ?n.
               find_overlap band_height prev_img curr_img
                 = Inr (int (nrows prev_img) - int best_row + int band_start)
               \<and> fl_less (d best_row) (Fin 5)
               \<and> (\<forall>row < ?n. \<not> fl_less (d row) (d best_row))
               \<and> (\<forall>row < best_row. d row \<noteq> d best_row)"
    if ex: "\<exists>row < ?n. fl_less (d row) (Fin 5)"
  proof -
    from ex obtain row where row: "row < ?n" "fl_less (d row) (Fin 5)" by blast
    from inv show ?thesis unfolding scan_inv_def
    proof
      assume "fst best = - 1 \<and> snd best = PosInf \<and> (\<forall>i<?n. \<not> fl_less (d i) PosInf)"
      with row have "\<not> fl_less (d row) PosInf" by simp
      with row(2) show ?thesis by (cases "d row") auto
    next
      assume "\<exists>j<?n. fst best = int j \<and> snd best = d j \<and> fl_less (d j) PosInf \<and>
                (\<forall>i<?n. \<not> fl_less (d i) (d j)) \<and> (\<forall>i<j. d i \<noteq> d j)"
      then obtain j where j: "j < ?n" "fst best = int j" "snd best = d j" "fl_less (d j) PosInf"
        "\<forall>i<?n. \<not> fl_less (d i) (d j)" "\<forall>i<j. d i \<noteq> d j" by blast
      from j(5) row(1) have nl: "\<not> fl_less (d row) (d j)" by simp
      from row(2) nl j(4) have lt: "fl_less (d j) (Fin 5)" by (rule fl_less_min_below)
      with fo j(2,3) have "find_overlap band_height prev_img curr_img
          = Inr (int (nrows prev_img) - int j + int band_start)" by simp
      with j(1,5,6) lt show ?thesis by blast
    qed
  qed
  have none: "find_overlap band_height prev_img curr_img = Inr 0"
    if nex: "\<not> (\<exists>row < ?n. fl_less (d row) (Fin 5))"
  proof -
    from inv have "\<not> fl_less (snd best) (Fin 5)" unfolding scan_inv_def
    proof
      assume "fst best = - 1 \<and> snd best = PosInf \<and> (\<forall>i<?n. \<not> fl_less (d i) PosInf)"
      then show ?thesis by simp
    next
      assume "\<exists>j<?n. fst best = int j \<and> snd best = d j \<and> fl_less (d j) PosInf \<and>
                (\<forall>i<?n. \<not> fl_less (d i) (d j)) \<and> (\<forall>i<j. d i \<noteq> d j)"
      with nex show ?thesis by auto
    qed
    with fo show ?thesis by simp
  qed
  have two: "stitch_images [prev_img, curr_img]
                = Inr (Some (prev_img\<lparr>pix := pix prev_img @ pix curr_img\<rparr>))"
    if "find_overlap 40 prev_img curr_img = Inr 0 \<and> ncols prev_img = ncols curr_img"
    using that stitch_step_no_overlap [of prev_img curr_img prev_img] by simp
  from found none two stitch_step_no_overlap [of prev_img curr_img result]
  show ?thesis by blast
qed

lemma band_diff_dark_dark:
  "band_diff 40 (dark_column 41) (row_slice (dark_column 45) band_start (band_start + 40)) 0
     = Inr (Fin 0)"
  unfolding dark_column_def by code_simp

lemma band_diff_dark_grey:
  "band_diff 40 (dark_column 41) (row_slice (grey_column 45) band_start (band_start + 40)) 0
     = Inr (Fin 10)"
  unfolding dark_column_def grey_column_def by code_simp

theorem find_overlap_spec_witness:
  "find_overlap 40 (dark_column 41) (dark_column 45) = Inr 46
   \<and> find_overlap 40 (dark_column 41) (grey_column 45) = Inr 0
   \<and> stitch_images [dark_column 41, grey_column 45]
       = Inr (Some \<lparr>ncols = 1, pix = replicate 41 [(0, 0, 0)] @ replicate 45 [(10, 10, 10)]\<rparr>)"
proof -
  have n: "nrows (dark_column 41) - 40 = 1"
    by (simp add: nrows_def dark_column_def)
  have a: "\<forall>row < nrows (dark_column 41) - 40.
             band_diff 40 (dark_column 41)
               (row_slice (dark_column 45) band_start (band_start + 40)) row = Inr (Fin 0)"
    using band_diff_dark_dark by (simp add: n)
  have b: "\<forall>row < nrows (dark_column 41) - 40.
             band_diff 40 (dark_column 41)
               (row_slice (grey_column 45) band_start (band_start + 40)) row = Inr (Fin 10)"
    using band_diff_dark_grey by (simp add: n)
  from find_overlap_spec [OF a, of "dark_column 41"]
  have 1: "find_overlap 40 (dark_column 41) (dark_column 45) = Inr 46"
    by (simp add: n band_start_def nrows_def dark_column_def)
  from find_overlap_spec [OF b, of "dark_column 41"]
  have 2: "find_overlap 40 (dark_column 41) (grey_column 45) = Inr 0"
    and 3: "stitch_images [dark_column 41, grey_column 45]
       = Inr (Some \<lparr>ncols = 1, pix = replicate 41 [(0, 0, 0)] @ replicate 45 [(10, 10, 10)]\<rparr>)"
    by (simp_all add: n dark_column_def grey_column_def)
  from 1 2 3 show ?thesis by simp
qed

section \<open>Cropping and the no-content result\<close>

lemma crop_scan_no_box:
  "\<forall>row \<in> set rows. \<not> is_box_row cfg img row \<Longrightarrow> \<not> last_box_row < nrows img \<Longrightarrow>
   crop_scan cfg img rows last_box_row = last_box_row"
  by (induction rows) auto

lemma crop_scan_le:
  "\<forall>row \<in> set rows. row < nrows img \<Longrightarrow> last_box_row \<le> nrows img \<Longrightarrow>
   crop_scan cfg img rows last_box_row \<le> nrows img"
  by (induction rows arbitrary: last_box_row) (auto simp: Let_def)

text \<open>
  C10. If no row matches either box colour on its central strip, the crop keeps the
  full height. In every case the result is a sub-image of the input: its rows are the
  first \<open>k\<close> rows of the input for some \<open>k\<close> up to the input height, each cut to
  \<open>min(input width, SCHEDULE_MAX_WIDTH)\<close> pixels, which is the width of the result.
\<close>

theorem crop_schedule_sub_image:
  "((\<forall>row < nrows img. \<not> is_box_row cfg img row) \<longrightarrow>
      nrows (crop_schedule cfg img) = nrows img)
   \<and> nrows (crop_schedule cfg img) \<le> nrows img
   \<and> ncols (crop_schedule cfg img) = min (ncols img) SCHEDULE_MAX_WIDTH
   \<and> (\<exists>k \<le> nrows img.
         pix (crop_schedule cfg img)
           = map (take (min (ncols img) SCHEDULE_MAX_WIDTH)) (take k (pix img)))"
proof -
  let ?k = "crop_scan cfg img (rev [0..<nrows img]) (nrows img)"
  have le: "?k \<le> nrows img"
    by (rule crop_scan_le) auto
  have full: "?k = nrows img" if "\<forall>row < nrows img. \<not> is_box_row cfg img row"
    using that by (intro crop_scan_no_box) auto
  have p: "pix (crop_schedule cfg img)
             = map (take (min (ncols img) SCHEDULE_MAX_WIDTH)) (take ?k (pix img))"
    by (simp add: crop_schedule_def Let_def)
  have n: "nrows (crop_schedule cfg img) = ?k"
    using le by (simp add: nrows_def p)
  have c: "ncols (crop_schedule cfg img) = min (ncols img) SCHEDULE_MAX_WIDTH"
    by (simp add: crop_schedule_def Let_def)
  from le full p n c show ?thesis by auto
qed

lemma nrows_dark_column: "nrows (dark_column n) = n"
  by (simp add: nrows_def dark_column_def)

lemma dark_column_no_box: "row < n \<Longrightarrow> \<not> is_box_row config_py (dark_column n) row"
  by (simp add: is_box_row_def BOX_COLORS_def config_py_def strip_matches_def central_strip_def
      dark_column_def np_mean_def within_tol_def)

theorem crop_schedule_sub_image_witness:
  "\<not> is_box_row config_py (dark_column 3) 0
   \<and> \<not> is_box_row config_py (dark_column 3) 1
   \<and> \<not> is_box_row config_py (dark_column 3) 2
   \<and> nrows (dark_column 3) = 3
   \<and> nrows (crop_schedule config_py (dark_column 3)) = 3
   \<and> ncols (crop_schedule config_py (dark_column 3)) = 1"
proof -
  have h: "\<forall>row < nrows (dark_column 3). \<not> is_box_row config_py (dark_column 3) row"
    by (simp add: dark_column_no_box nrows_dark_column)
  have w: "min (ncols (dark_column 3)) SCHEDULE_MAX_WIDTH = 1"
    by (simp add: dark_column_def SCHEDULE_MAX_WIDTH_def)
  from crop_schedule_sub_image [of "dark_column 3" config_py] h w
  show ?thesis
    by (simp add: nrows_dark_column dark_column_no_box)
qed

text \<open>
  What the scan does when the bottom row is not a box row: it stops at the first box
  row from the bottom and keeps exactly the rows through it.
\<close>

lemma crop_scan_blank_below:
  assumes "is_box_row cfg img k" "k < n" "n \<le> nrows img" "Suc k < nrows img"
    and "\<forall>row. k < row \<and> row < n \<longrightarrow> \<not> is_box_row cfg img row"
  shows "crop_scan cfg img (rev [0..<n]) (nrows img) = Suc k"
  using assms
proof (induction n)
  case 0
  then show ?case by simp
next
  case (Suc n)
  show ?case
  proof (cases "k = n")
    case True
    with Suc.prems show ?thesis by simp
  next
    case False
    with Suc.prems have "\<not> is_box_row cfg img n" "k < n" by auto
    with Suc show ?thesis by simp
  qed
qed

lemma crop_schedule_blank_below:
  assumes "is_box_row cfg img k" "Suc k < nrows img"
    and "\<forall>row. k < row \<and> row < nrows img \<longrightarrow> \<not> is_box_row cfg img row"
  shows "nrows (crop_schedule cfg img) = Suc k"
proof -
  from assms have "crop_scan cfg img (rev [0..<nrows img]) (nrows img) = Suc k"
    by (intro crop_scan_blank_below) auto
  with assms(2) show ?thesis
    by (simp add: crop_schedule_def Let_def nrows_def)
qed

text \<open>
  The example of the specification: box-coloured content down to row 500, black padding
  to row 600. The crop has exactly 500 rows.
\<close>

lemma crop_schedule_padded_example:
  "nrows (crop_schedule config_py
            \<lparr>ncols = 1, pix = replicate 500 [(0xc5, 0xe4, 0xe9)] @ replicate 100 [(0, 0, 0)]\<rparr>)
     = 500"
proof -
  let ?img = "\<lparr>ncols = 1, pix = replicate 500 [(0xc5, 0xe4, 0xe9)] @ replicate 100 [(0, 0, 0)]\<rparr>"
  have n: "nrows ?img = 600" by (simp add: nrows_def)
  have b: "is_box_row config_py ?img 499"
    by (simp add: is_box_row_def BOX_COLORS_def config_py_def strip_matches_def
        central_strip_def np_mean_def within_tol_def nth_append)
  have nb: "\<not> is_box_row config_py ?img row" if "499 < row" "row < 600" for row
    using that
    by (simp add: is_box_row_def BOX_COLORS_def config_py_def strip_matches_def
        central_strip_def np_mean_def within_tol_def nth_append)
  have "nrows (crop_schedule config_py ?img) = Suc 499"
    by (rule crop_schedule_blank_below) (use n b nb in auto)
  then show ?thesis by simp
qed

text \<open>
  C5, at a failing input. In \<open>box_gap_box\<close> the last row matching a box colour is the
  bottom row, row 2, so the crop specified keeps all three rows. \<open>crop_schedule\<close>
  keeps one: a match on the bottom row sets \<open>last_box_row\<close> to the image height,
  which is also its initial "nothing found yet" value, so the scan goes on upwards and
  cuts at the next matching row, here row 0.
\<close>

theorem crop_schedule_bottom_box_row:
  "is_box_row config_py box_gap_box 2
   \<and> nrows box_gap_box = 3
   \<and> crop_schedule config_py box_gap_box = \<lparr>ncols = 1, pix = [[(0xc5, 0xe4, 0xe9)]]\<rparr>"
  by (simp add: crop_schedule_def nrows_def is_box_row_def BOX_COLORS_def config_py_def
      strip_matches_def central_strip_def np_mean_def within_tol_def box_gap_box_def
      SCHEDULE_MAX_WIDTH_def)

text \<open>
  C7. Stitching an empty frame sequence returns the absent result and raises nothing;
  and whenever the stitcher returns the absent result, the rest of
  \<open>capture_schedule\<close> returns the absent result too, with nothing saved and no further
  action.
\<close>

theorem stitch_no_content:
  "stitch_images [] = Inr None
   \<and> (stitch_images frames = Inr None \<longrightarrow>
        save_schedule cfg output_dir frames w = (Inr None, w))"
  by (simp add: save_schedule_def)

theorem stitch_no_content_witness:
  "stitch_images [] = Inr None
   \<and> save_schedule config_py ''out'' [] idle_desktop = (Inr None, idle_desktop)"
  using stitch_no_content [of "[]" config_py "''out''" idle_desktop] by simp

section \<open>Click-and-verify\<close>


lemma clock_click_at: "clock (click_at p d w) = clock w + 500 + d"
  by (simp add: click_at_def act_def sleep_def moveTo_def)






























section \<open>Seeking and counting in the train list\<close>




















































end
